theory Spec2Isabelle
  imports Complex_Main "HOL-Library.List_Lexorder" "HOL-Library.Char_ord"
begin

section \<open>Controller information and its ordering\<close>

text \<open>
  \<^verbatim>\<open>TrajectoryExecutionManager::ControllerInformation\<close> of
  \<^verbatim>\<open>trajectory_execution_manager.h\<close>. A \<^verbatim>\<open>std::set<std::string>\<close> is a set of
  strings, its \<^verbatim>\<open>size()\<close> the cardinality. A \<^verbatim>\<open>std::string\<close> is a list of bytes and
  \<^verbatim>\<open>operator<\<close> on it the lexicographic order on the bytes, which is the order of
  \<^typ>\<open>string\<close> here. The controller state of the controller manager plugin has the two
  flags \<^verbatim>\<open>active_\<close> and \<^verbatim>\<open>default_\<close>; a \<^verbatim>\<open>ros::Time\<close> is a count of nanoseconds.
  A member \<^verbatim>\<open>x_\<close> of the source is the field \<open>x\<close> here.
\<close>

record ControllerState =
  active :: bool
  is_default :: bool

record ControllerInformation =
  name :: string
  joints :: "string set"
  overlapping_controllers :: "string set"
  state :: ControllerState
  last_update :: nat

text \<open>
  \<^verbatim>\<open>bool operator<(ControllerInformation& other) const\<close>: when the two joint sets differ
  in size the smaller one is first, otherwise the names decide.
\<close>

definition ci_less :: "ControllerInformation \<Rightarrow> ControllerInformation \<Rightarrow> bool" where
  "ci_less this other =
     (if card (joints this) \<noteq> card (joints other)
      then card (joints this) < card (joints other)
      else name this < name other)"

section \<open>Joint states of a kinematic state\<close>

text \<open>
  \<^verbatim>\<open>planning_models::KinematicState::JointState\<close>. The joint model it points to is
  read-only and its class is declared elsewhere, so what the joint state asks of it is a
  record of parameters: the number of variables, the variable index map (a
  \<^verbatim>\<open>std::map<std::string, unsigned int>\<close>, listed in the order its iterator visits it),
  \<^verbatim>\<open>updateTransform\<close> (which rewrites the transform it is handed from the values) and the
  mimic factor and offset. The transform type is left open.

  Joint states refer to each other through \<^verbatim>\<open>mimic_requests\<close>, a vector of pointers,
  and \<^verbatim>\<open>updateMimicJoints\<close> writes through them: the joint states live in a store, and a
  pointer is an address of it.
\<close>

type_synonym addr = nat

record 't JointModel =
  variable_count :: nat
  variable_index_map :: "(string \<times> nat) list"
  update_transform :: "real list \<Rightarrow> 't \<Rightarrow> 't"
  mimic_factor :: real
  mimic_offset :: real

record 't JointState =
  joint_model :: "'t JointModel"
  variable_transform :: 't
  joint_state_values :: "real list"
  mimic_requests :: "addr list"

type_synonym 't store = "addr \<rightharpoonup> 't JointState"

text \<open>
  What stops a call short of returning: a read or write past the end of a vector and a
  pointer to no joint state are undefined behaviour in the source; \<open>OutOfFuel\<close> stands
  for a chain of mimic requests deeper than the fuel given (a cycle of mimic requests
  never returns).
\<close>

datatype error = OutOfBounds | NullPointer | OutOfFuel

definition getVariableCount :: "'t JointState \<Rightarrow> nat" where
  "getVariableCount js = variable_count (joint_model js)"

definition getVariableIndexMap :: "'t JointState \<Rightarrow> (string \<times> nat) list" where
  "getVariableIndexMap js = variable_index_map (joint_model js)"

text \<open>
  The body of the loop of \<^verbatim>\<open>updateMimicJoints\<close>, over the mimic requests that are left.
  \<open>call\<close> is \<^verbatim>\<open>setVariableValues(const double*)\<close> on the joint state pointed to. Each
  round builds \<^verbatim>\<open>mim_val\<close> from the values this joint state holds at that moment. No
  function of this file writes \<^verbatim>\<open>mimic_requests\<close>, so the vector is read once.
\<close>

fun mimic_loop ::
  "('t store \<Rightarrow> addr \<Rightarrow> real list \<Rightarrow> error + 't store) \<Rightarrow> addr \<Rightarrow> addr list \<Rightarrow> 't store
     \<Rightarrow> error + 't store" where
  "mimic_loop call this [] s = Inr s"
| "mimic_loop call this (m # ms) s =
     (case s this of
        None \<Rightarrow> Inl NullPointer
      | Some js \<Rightarrow>
          (let mim_val = map (\<lambda>v. v * mimic_factor (joint_model js) + mimic_offset (joint_model js))
                             (joint_state_values js)
           in case call s m mim_val of
                Inl e \<Rightarrow> Inl e
              | Inr s' \<Rightarrow> mimic_loop call this ms s'))"

text \<open>
  \<^verbatim>\<open>void setVariableValues(const double *joint_state_values)\<close>: copies as many values as
  this joint state holds from the buffer (reading past a shorter buffer is out of
  bounds), updates the transform and the mimic joints. The fuel bounds the depth of the
  calls through mimic requests.
\<close>

primrec setVariableValuesPtr :: "nat \<Rightarrow> 't store \<Rightarrow> addr \<Rightarrow> real list \<Rightarrow> error + 't store" where
  "setVariableValuesPtr 0 s this buf = Inl OutOfFuel"
| "setVariableValuesPtr (Suc n) s this buf =
     (case s this of
        None \<Rightarrow> Inl NullPointer
      | Some js \<Rightarrow>
          if length buf < length (joint_state_values js) then Inl OutOfBounds
          else
            (let vals = take (length (joint_state_values js)) buf;
                 js' = js\<lparr>joint_state_values := vals,
                          variable_transform :=
                            update_transform (joint_model js) vals (variable_transform js)\<rparr>
             in mimic_loop (setVariableValuesPtr n) this (mimic_requests js') (s(this \<mapsto> js'))))"

definition updateMimicJoints :: "nat \<Rightarrow> 't store \<Rightarrow> addr \<Rightarrow> error + 't store" where
  "updateMimicJoints fuel s this =
     (case s this of
        None \<Rightarrow> Inl NullPointer
      | Some js \<Rightarrow> mimic_loop (setVariableValuesPtr fuel) this (mimic_requests js) s)"

text \<open>
  \<^verbatim>\<open>bool setVariableValues(const std::vector<double>& joint_state_values)\<close>: the result
  is the returned flag and the store the call leaves.
\<close>

definition setVariableValues ::
  "nat \<Rightarrow> 't store \<Rightarrow> addr \<Rightarrow> real list \<Rightarrow> error + (bool \<times> 't store)" where
  "setVariableValues fuel s this vals =
     (case s this of
        None \<Rightarrow> Inl NullPointer
      | Some js \<Rightarrow>
          if length vals \<noteq> getVariableCount js then Inr (False, s)
          else
            (let js' = js\<lparr>joint_state_values := vals,
                          variable_transform :=
                            update_transform (joint_model js) vals (variable_transform js)\<rparr>
             in case updateMimicJoints fuel (s(this \<mapsto> js')) this of
                  Inl e \<Rightarrow> Inl e
                | Inr s' \<Rightarrow> Inr (True, s')))"

subsection \<open>Setting values from a map of variable names\<close>

text \<open>
  A \<^verbatim>\<open>std::map\<close> is the list of its entries in the order its iterator visits them,
  which is the ascending order of the keys; \<^verbatim>\<open>find\<close> is \<^const>\<open>map_of\<close> and
  \<^verbatim>\<open>size()\<close> the length. \<open>std_map\<close> says that a list is such a map.
\<close>

definition std_map :: "(string \<times> 'v) list \<Rightarrow> bool" where
  "std_map m = sorted_wrt (<) (map fst m)"

text \<open>
  The loop of \<^verbatim>\<open>setVariableValues(joint_value_map, missing)\<close> over the variable index
  map: a variable with no value is appended to \<^verbatim>\<open>missing\<close>, the value of any other is
  written at the index of the variable. The write \<^verbatim>\<open>joint_state_values_[i] = v\<close> is out
  of bounds when the index is not below the size of the vector.
\<close>

fun loop_index_map_missing ::
  "(string \<times> real) list \<Rightarrow> (string \<times> nat) list \<Rightarrow> bool \<Rightarrow> real list \<Rightarrow> string list
     \<Rightarrow> error + (bool \<times> real list \<times> string list)" where
  "loop_index_map_missing jvm [] has_any vals missing = Inr (has_any, vals, missing)"
| "loop_index_map_missing jvm ((k, i) # vim) has_any vals missing =
     (case map_of jvm k of
        None \<Rightarrow> loop_index_map_missing jvm vim has_any vals (missing @ [k])
      | Some v \<Rightarrow>
          if i < length vals then loop_index_map_missing jvm vim True (vals[i := v]) missing
          else Inl OutOfBounds)"

definition setVariableValuesMissing ::
  "nat \<Rightarrow> 't store \<Rightarrow> addr \<Rightarrow> (string \<times> real) list \<Rightarrow> string list
     \<Rightarrow> error + ('t store \<times> string list)" where
  "setVariableValuesMissing fuel s this joint_value_map missing =
     (case s this of
        None \<Rightarrow> Inl NullPointer
      | Some js \<Rightarrow>
          (case loop_index_map_missing joint_value_map (getVariableIndexMap js) False
                  (joint_state_values js) missing of
             Inl e \<Rightarrow> Inl e
           | Inr (has_any, vals, missing') \<Rightarrow>
               if has_any then
                 (let js' = js\<lparr>joint_state_values := vals,
                               variable_transform :=
                                 update_transform (joint_model js) vals (variable_transform js)\<rparr>
                  in case updateMimicJoints fuel (s(this \<mapsto> js')) this of
                       Inl e \<Rightarrow> Inl e
                     | Inr s' \<Rightarrow> Inr (s', missing'))
               else Inr (s(this \<mapsto> js\<lparr>joint_state_values := vals\<rparr>), missing')))"

text \<open>
  The two loops of \<^verbatim>\<open>setVariableValues(joint_value_map)\<close>: over the value map, looking
  each name up in the variable index map, and over the variable index map, looking each
  name up in the value map.
\<close>

fun loop_value_map ::
  "(string \<times> nat) list \<Rightarrow> (string \<times> real) list \<Rightarrow> bool \<Rightarrow> real list
     \<Rightarrow> error + (bool \<times> real list)" where
  "loop_value_map vim [] update vals = Inr (update, vals)"
| "loop_value_map vim ((k, v) # jvm) update vals =
     (case map_of vim k of
        Some i \<Rightarrow>
          if i < length vals then loop_value_map vim jvm True (vals[i := v])
          else Inl OutOfBounds
      | None \<Rightarrow> loop_value_map vim jvm update vals)"

fun loop_index_map ::
  "(string \<times> real) list \<Rightarrow> (string \<times> nat) list \<Rightarrow> bool \<Rightarrow> real list
     \<Rightarrow> error + (bool \<times> real list)" where
  "loop_index_map jvm [] update vals = Inr (update, vals)"
| "loop_index_map jvm ((k, i) # vim) update vals =
     (case map_of jvm k of
        Some v \<Rightarrow>
          if i < length vals then loop_index_map jvm vim True (vals[i := v])
          else Inl OutOfBounds
      | None \<Rightarrow> loop_index_map jvm vim update vals)"

definition setVariableValuesMap ::
  "nat \<Rightarrow> 't store \<Rightarrow> addr \<Rightarrow> (string \<times> real) list \<Rightarrow> error + 't store" where
  "setVariableValuesMap fuel s this joint_value_map =
     (case s this of
        None \<Rightarrow> Inl NullPointer
      | Some js \<Rightarrow>
          (case (if length joint_value_map \<le> length (getVariableIndexMap js)
                 then loop_value_map (getVariableIndexMap js) joint_value_map False
                        (joint_state_values js)
                 else loop_index_map joint_value_map (getVariableIndexMap js) False
                        (joint_state_values js)) of
             Inl e \<Rightarrow> Inl e
           | Inr (update, vals) \<Rightarrow>
               if update then
                 (let js' = js\<lparr>joint_state_values := vals,
                               variable_transform :=
                                 update_transform (joint_model js) vals (variable_transform js)\<rparr>
                  in updateMimicJoints fuel (s(this \<mapsto> js')) this)
               else Inr (s(this \<mapsto> js\<lparr>joint_state_values := vals\<rparr>))))"

text \<open>The writes a loop makes, as the list of the indices and values in the order made.\<close>

fun apply_writes :: "(nat \<times> real) list \<Rightarrow> bool \<Rightarrow> real list \<Rightarrow> error + (bool \<times> real list)" where
  "apply_writes [] update vals = Inr (update, vals)"
| "apply_writes ((i, v) # ws) update vals =
     (if i < length vals then apply_writes ws True (vals[i := v]) else Inl OutOfBounds)"

definition common_by_index ::
  "(string \<times> real) list \<Rightarrow> (string \<times> nat) list \<Rightarrow> (string \<times> nat \<times> real) list" where
  "common_by_index jvm vim =
     List.map_filter (\<lambda>(k, i). map_option (\<lambda>v. (k, i, v)) (map_of jvm k)) vim"

definition common_by_value ::
  "(string \<times> nat) list \<Rightarrow> (string \<times> real) list \<Rightarrow> (string \<times> nat \<times> real) list" where
  "common_by_value vim jvm =
     List.map_filter (\<lambda>(k, v). map_option (\<lambda>i. (k, i, v)) (map_of vim k)) jvm"

subsection \<open>Stores on which the mimic update returns\<close>

text \<open>
  \<open>mimic_ok n s a\<close>: the joint state at \<open>a\<close> exists, the chains of mimic requests from
  it are at most \<open>n\<close> long, every joint state requested exists and holds no more values
  than the one it mimics (so that the copy from \<^verbatim>\<open>mim_val\<close> stays in bounds). The shape
  of a store is what these conditions read of it.
\<close>

primrec mimic_ok :: "nat \<Rightarrow> 't store \<Rightarrow> addr \<Rightarrow> bool" where
  "mimic_ok 0 s a = (case s a of None \<Rightarrow> False | Some js \<Rightarrow> mimic_requests js = [])"
| "mimic_ok (Suc n) s a =
     (case s a of
        None \<Rightarrow> False
      | Some js \<Rightarrow>
          list_all (\<lambda>m. (case s m of
                            None \<Rightarrow> False
                          | Some jm \<Rightarrow> length (joint_state_values jm) \<le> length (joint_state_values js))
                        \<and> mimic_ok n s m)
                   (mimic_requests js))"

definition shape :: "'t store \<Rightarrow> addr \<Rightarrow> (addr list \<times> nat) option" where
  "shape s a = map_option (\<lambda>js. (mimic_requests js, length (joint_state_values js))) (s a)"

text \<open>Two small stores for the examples: a joint of two variables, alone and mimicked.\<close>

definition example_model :: "(real list) JointModel" where
  "example_model =
     \<lparr>variable_count = 2, variable_index_map = [(''x'', 0), (''y'', 1)],
      update_transform = (\<lambda>vals t. vals), mimic_factor = 2, mimic_offset = 1\<rparr>"

definition example_joint :: "addr list \<Rightarrow> (real list) JointState" where
  "example_joint ms =
     \<lparr>joint_model = example_model, variable_transform = [], joint_state_values = [0, 0],
      mimic_requests = ms\<rparr>"

definition example_store :: "(real list) store" where
  "example_store = [0 \<mapsto> example_joint [1], 1 \<mapsto> example_joint []]"

section \<open>Trajectory execution contexts\<close>

text \<open>
  Modelled from the spec: the message types \<^verbatim>\<open>moveit_msgs::RobotTrajectory\<close> and
  \<^verbatim>\<open>trajectory_msgs::JointTrajectory\<close> are declared outside the sources. A joint
  trajectory is a list of joint names and a list of waypoints, each with one entry for
  each joint in the arrays that are present; a robot trajectory holds a single-DOF and a
  multi-DOF joint trajectory. A transform or a twist of a multi-DOF waypoint is the list
  of its numbers.
\<close>

record JointTrajectoryPoint =
  positions :: "real list"
  velocities :: "real list"
  accelerations :: "real list"
  effort :: "real list"
  time_from_start :: real

record JointTrajectory =
  joint_names :: "string list"
  points :: "JointTrajectoryPoint list"

record MultiDOFJointTrajectoryPoint =
  mdof_transforms :: "real list list"
  mdof_velocities :: "real list list"
  mdof_accelerations :: "real list list"
  mdof_time_from_start :: real

record MultiDOFJointTrajectory =
  mdof_joint_names :: "string list"
  mdof_points :: "MultiDOFJointTrajectoryPoint list"

record RobotTrajectory =
  joint_trajectory :: JointTrajectory
  multi_dof_joint_trajectory :: MultiDOFJointTrajectory

text \<open>
  \<^verbatim>\<open>TrajectoryExecutionManager::TrajectoryExecutionContext\<close> of the header: the
  controllers and, for each, its part of the trajectory.
\<close>

record TrajectoryExecutionContext =
  controllers :: "string list"
  trajectory_parts :: "RobotTrajectory list"

text \<open>
  \<^verbatim>\<open>known_controllers_\<close>, a \<^verbatim>\<open>std::map<std::string, ControllerInformation>\<close>: the list
  of its entries, looked up with \<^const>\<open>map_of\<close>.
\<close>

type_synonym registry = "(string \<times> ControllerInformation) list"

section \<open>The controller selector\<close>

text \<open>
  The header declares \<^verbatim>\<open>checkControllerCombination\<close>, \<^verbatim>\<open>findControllers\<close> and
  \<^verbatim>\<open>selectControllers\<close>; their bodies are not among the sources. They are modelled from
  section 4.2 of the specification.
\<close>

text \<open>Modelled from the spec: the joints of a controller are those of its ControllerInfo;
  a name with no ControllerInfo brings no joint.\<close>

definition joints_of :: "registry \<Rightarrow> string \<Rightarrow> string set" where
  "joints_of known c = (case map_of known c of None \<Rightarrow> {} | Some ci \<Rightarrow> joints ci)"

text \<open>Modelled from the spec: the body of \<^verbatim>\<open>checkControllerCombination\<close> is missing;
  coverage is that the union of the joint sets of the controllers includes the actuated
  joints.\<close>

definition checkControllerCombination :: "registry \<Rightarrow> string list \<Rightarrow> string set \<Rightarrow> bool" where
  "checkControllerCombination known cs actuated_joints \<longleftrightarrow>
     actuated_joints \<subseteq> (\<Union>c \<in> set cs. joints_of known c)"

text \<open>Modelled from the spec: all \<open>k\<close>-subsets of a list, in lexicographic order of the
  positions taken.\<close>

fun combinations :: "nat \<Rightarrow> 'a list \<Rightarrow> 'a list list" where
  "combinations 0 xs = [[]]"
| "combinations (Suc k) [] = []"
| "combinations (Suc k) (x # xs) = map ((#) x) (combinations k xs) @ combinations (Suc k) xs"

text \<open>Modelled from the spec: the available controllers in the ControllerInfo ordering
  (fewer joints first, then the smaller name), by insertion; only a controller with a
  ControllerInfo is a candidate.\<close>

fun insert_controller ::
  "string \<times> ControllerInformation \<Rightarrow> (string \<times> ControllerInformation) list
     \<Rightarrow> (string \<times> ControllerInformation) list" where
  "insert_controller x [] = [x]"
| "insert_controller x (y # ys) =
     (if ci_less (snd y) (snd x) then y # insert_controller x ys else x # y # ys)"

text \<open>Modelled from the spec: the candidates among the available controllers, sorted in
  the ControllerInfo ordering, equal ones in the order given.\<close>

definition ordered_controllers :: "registry \<Rightarrow> string list \<Rightarrow> string list" where
  "ordered_controllers known available =
     map fst (foldr insert_controller
                (List.map_filter (\<lambda>c. map_option (Pair c) (map_of known c)) available) [])"

text \<open>Modelled from the spec: the score of a covering subset is the number of its
  controllers that are active already, then the negated sum of the sizes of their joint
  sets; scores are compared in this order.\<close>

definition score :: "registry \<Rightarrow> string list \<Rightarrow> nat \<times> int" where
  "score known cs =
     (length (filter (\<lambda>c. case map_of known c of None \<Rightarrow> False | Some ci \<Rightarrow> active (state ci)) cs),
      - int (sum_list (map (\<lambda>c. card (joints_of known c)) cs)))"

text \<open>Modelled from the spec: a score is less than another when it has fewer active
  controllers, or as many and the smaller second component.\<close>

definition score_less :: "nat \<times> int \<Rightarrow> nat \<times> int \<Rightarrow> bool" where
  "score_less a b \<longleftrightarrow> fst a < fst b \<or> (fst a = fst b \<and> snd a < snd b)"

text \<open>Modelled from the spec: the option of maximum score, the one met first on ties.\<close>

fun best_option :: "registry \<Rightarrow> string list list \<Rightarrow> string list option" where
  "best_option known [] = None"
| "best_option known (x # xs) =
     (case best_option known xs of
        None \<Rightarrow> Some x
      | Some y \<Rightarrow> if score_less (score known x) (score known y) then Some y else Some x)"

text \<open>Modelled from the spec: the body of \<^verbatim>\<open>findControllers\<close> is missing; for a given
  count it enumerates the subsets of that size, keeps those that cover the actuated joints
  and returns the best of them.\<close>

definition findControllers ::
  "registry \<Rightarrow> string set \<Rightarrow> nat \<Rightarrow> string list \<Rightarrow> string list option" where
  "findControllers known actuated_joints controller_count available =
     best_option known
       (filter (\<lambda>cs. checkControllerCombination known cs actuated_joints)
          (combinations controller_count (ordered_controllers known available)))"

text \<open>Modelled from the spec: the body of \<^verbatim>\<open>selectControllers\<close> is missing; it
  deepens the count from 1 to the number of available controllers and returns the result
  for the first count that yields a cover, and fails when none does.\<close>

fun first_cover :: "registry \<Rightarrow> string set \<Rightarrow> string list \<Rightarrow> nat list \<Rightarrow> string list option" where
  "first_cover known actuated_joints available [] = None"
| "first_cover known actuated_joints available (k # ks) =
     (case findControllers known actuated_joints k available of
        Some selected \<Rightarrow> Some selected
      | None \<Rightarrow> first_cover known actuated_joints available ks)"

text \<open>Modelled from the spec: \<^verbatim>\<open>selectControllers\<close> tries the counts 1, 2, ... up to
  the number of available controllers.\<close>

definition selectControllers :: "registry \<Rightarrow> string set \<Rightarrow> string list \<Rightarrow> string list option" where
  "selectControllers known actuated_joints available =
     first_cover known actuated_joints available [1..<Suc (length available)]"

section \<open>The trajectory distributor\<close>

text \<open>
  The header declares \<^verbatim>\<open>distributeTrajectory\<close> and \<^verbatim>\<open>configure\<close>; their bodies are
  not among the sources. They are modelled from sections 4.3 and 4.9 of the specification.
\<close>

text \<open>Modelled from the spec: the actuated joints of a request are the joints named in
  either of its two joint trajectories.\<close>

definition actuated_joints_of :: "RobotTrajectory \<Rightarrow> string set" where
  "actuated_joints_of t =
     set (joint_names (joint_trajectory t)) \<union> set (mdof_joint_names (multi_dof_joint_trajectory t))"

text \<open>Modelled from the spec: among the chosen controllers that list a joint, the joint
  goes to the least in the ControllerInfo ordering (the smaller joint set, ties by
  name).\<close>

definition candidates :: "registry \<Rightarrow> string list \<Rightarrow> string \<Rightarrow> (string \<times> ControllerInformation) list" where
  "candidates known cs j =
     List.map_filter
       (\<lambda>c. case map_of known c of
               None \<Rightarrow> None
             | Some ci \<Rightarrow> if j \<in> joints ci then Some (c, ci) else None) cs"

text \<open>Modelled from the spec: the least of the candidates in the ControllerInfo ordering,
  the first such one in the list.\<close>

fun least_controller ::
  "(string \<times> ControllerInformation) list \<Rightarrow> (string \<times> ControllerInformation) option" where
  "least_controller [] = None"
| "least_controller (x # xs) =
     (case least_controller xs of
        None \<Rightarrow> Some x
      | Some y \<Rightarrow> if ci_less (snd y) (snd x) then Some y else Some x)"

text \<open>Modelled from the spec: the controller a joint is assigned to, if any lists it.\<close>

definition owner :: "registry \<Rightarrow> string list \<Rightarrow> string \<Rightarrow> string option" where
  "owner known cs j = map_option fst (least_controller (candidates known cs j))"

text \<open>Modelled from the spec: of an array with one entry for each joint, the entries of
  the joints kept, in their order; an array that is absent (empty) stays so.\<close>

definition select_rows :: "(string \<Rightarrow> bool) \<Rightarrow> string list \<Rightarrow> 'a list \<Rightarrow> 'a list" where
  "select_rows keep names xs = map snd (filter (\<lambda>(n, x). keep n) (zip names xs))"

text \<open>Modelled from the spec: a waypoint of a part keeps the entries of the kept joints
  in its positions, velocities, accelerations and efforts, and its time.\<close>

definition restrict_point ::
  "(string \<Rightarrow> bool) \<Rightarrow> string list \<Rightarrow> JointTrajectoryPoint \<Rightarrow> JointTrajectoryPoint" where
  "restrict_point keep names p =
     \<lparr>positions = select_rows keep names (positions p),
      velocities = select_rows keep names (velocities p),
      accelerations = select_rows keep names (accelerations p),
      effort = select_rows keep names (effort p),
      time_from_start = time_from_start p\<rparr>"

text \<open>Modelled from the spec: the same for a waypoint of the multi-DOF trajectory.\<close>

definition restrict_mdof_point ::
  "(string \<Rightarrow> bool) \<Rightarrow> string list \<Rightarrow> MultiDOFJointTrajectoryPoint \<Rightarrow> MultiDOFJointTrajectoryPoint" where
  "restrict_mdof_point keep names p =
     \<lparr>mdof_transforms = select_rows keep names (mdof_transforms p),
      mdof_velocities = select_rows keep names (mdof_velocities p),
      mdof_accelerations = select_rows keep names (mdof_accelerations p),
      mdof_time_from_start = mdof_time_from_start p\<rparr>"

text \<open>Modelled from the spec: the part of a controller holds, in both joint trajectories,
  the rows of the joints assigned to it.\<close>

definition trajectory_part :: "registry \<Rightarrow> string list \<Rightarrow> RobotTrajectory \<Rightarrow> string \<Rightarrow> RobotTrajectory" where
  "trajectory_part known cs t c =
     (let keep = (\<lambda>j. owner known cs j = Some c);
          jt = joint_trajectory t;
          mt = multi_dof_joint_trajectory t
      in \<lparr>joint_trajectory =
             \<lparr>joint_names = filter keep (joint_names jt),
              points = map (restrict_point keep (joint_names jt)) (points jt)\<rparr>,
           multi_dof_joint_trajectory =
             \<lparr>mdof_joint_names = filter keep (mdof_joint_names mt),
              mdof_points = map (restrict_mdof_point keep (mdof_joint_names mt)) (mdof_points mt)\<rparr>\<rparr>)"

text \<open>Modelled from the spec: the body of \<^verbatim>\<open>distributeTrajectory\<close> is missing; it
  fails when a joint of the input is listed by no chosen controller and otherwise returns
  one part for each controller.\<close>

definition distributeTrajectory ::
  "registry \<Rightarrow> RobotTrajectory \<Rightarrow> string list \<Rightarrow> RobotTrajectory list option" where
  "distributeTrajectory known t cs =
     (if list_all (\<lambda>j. owner known cs j \<noteq> None)
           (joint_names (joint_trajectory t) @ mdof_joint_names (multi_dof_joint_trajectory t))
      then Some (map (trajectory_part known cs t) cs)
      else None)"

text \<open>Modelled from the spec: the body of \<^verbatim>\<open>configure\<close> is missing; it fails on a
  trajectory with no joints, when the selector finds no cover and when the distributor
  cannot split; with no controllers named all known ones are available.\<close>

definition configure ::
  "registry \<Rightarrow> RobotTrajectory \<Rightarrow> string list \<Rightarrow> TrajectoryExecutionContext option" where
  "configure known t cs =
     (if actuated_joints_of t = {} then None
      else
        (case selectControllers known (actuated_joints_of t)
                (if cs = [] then map fst known else cs) of
           None \<Rightarrow> None
         | Some selected \<Rightarrow>
             (case distributeTrajectory known t selected of
                None \<Rightarrow> None
              | Some parts \<Rightarrow> Some \<lparr>controllers = selected, trajectory_parts = parts\<rparr>)))"

text \<open>The joints named in a part.\<close>

definition part_joints :: "RobotTrajectory \<Rightarrow> string set" where
  "part_joints p =
     set (joint_names (joint_trajectory p)) \<union> set (mdof_joint_names (multi_dof_joint_trajectory p))"

text \<open>
  The second scenario of the specification: controller A drives j1 and j2, controller B
  drives j2 and j3, and the trajectory moves all three joints.
\<close>

definition example_controller :: "string \<Rightarrow> string set \<Rightarrow> string \<times> ControllerInformation" where
  "example_controller n js =
     (n, \<lparr>name = n, joints = js, overlapping_controllers = {},
          state = \<lparr>active = False, is_default = False\<rparr>, last_update = 0\<rparr>)"

definition example_registry :: registry where
  "example_registry =
     [example_controller ''A'' {''j1'', ''j2''}, example_controller ''B'' {''j2'', ''j3''}]"

definition example_trajectory :: RobotTrajectory where
  "example_trajectory =
     \<lparr>joint_trajectory =
        \<lparr>joint_names = [''j1'', ''j2'', ''j3''],
         points = [\<lparr>positions = [1, 2, 3], velocities = [], accelerations = [], effort = [],
                    time_from_start = 0\<rparr>]\<rparr>,
      multi_dof_joint_trajectory = \<lparr>mdof_joint_names = [], mdof_points = []\<rparr>\<rparr>"

definition example_parts :: "RobotTrajectory list" where
  "example_parts =
     [\<lparr>joint_trajectory =
         \<lparr>joint_names = [''j1'', ''j2''],
          points = [\<lparr>positions = [1, 2], velocities = [], accelerations = [], effort = [],
                     time_from_start = 0\<rparr>]\<rparr>,
       multi_dof_joint_trajectory = \<lparr>mdof_joint_names = [], mdof_points = []\<rparr>\<rparr>,
      \<lparr>joint_trajectory =
         \<lparr>joint_names = [''j3''],
          points = [\<lparr>positions = [3], velocities = [], accelerations = [], effort = [],
                     time_from_start = 0\<rparr>]\<rparr>,
       multi_dof_joint_trajectory = \<lparr>mdof_joint_names = [], mdof_points = []\<rparr>\<rparr>]"

section \<open>The ordering of controllers\<close>

text \<open>
  C4. The ordering on ControllerInformation is by the size of the joint set, ascending,
  then by the controller name, ascending: \<open>a < b\<close> holds exactly when \<open>a\<close> has fewer
  joints than \<open>b\<close>, or as many and a smaller name.
\<close>

theorem ci_less_iff:
  "ci_less a b \<longleftrightarrow>
     card (joints a) < card (joints b) \<or>
     (card (joints a) = card (joints b) \<and> name a < name b)"
  by (simp add: ci_less_def)

section \<open>Setting the values of a joint state from a vector\<close>

lemma shape_eqD:
  "shape s = shape t \<Longrightarrow> s a = Some js \<Longrightarrow>
     \<exists>jt. t a = Some jt \<and> mimic_requests jt = mimic_requests js
           \<and> length (joint_state_values jt) = length (joint_state_values js)"
proof -
  assume "shape s = shape t" and js: "s a = Some js"
  then have "shape t a = shape s a" by simp
  then show ?thesis using js by (cases "t a") (auto simp: shape_def)
qed

lemma shape_None: "shape s = shape t \<Longrightarrow> s a = None \<Longrightarrow> t a = None"
  by (drule fun_cong [of _ _ a]) (auto simp: shape_def)

lemma mimic_ok_shape: "shape s = shape t \<Longrightarrow> mimic_ok n s a = mimic_ok n t a"
proof (induction n arbitrary: a)
  case 0
  then show ?case
    by (cases "s a"; cases "t a") (auto dest: shape_eqD shape_None simp: )
next
  case (Suc n)
  show ?case
  proof (cases "s a")
    case None
    then show ?thesis using shape_None [OF Suc.prems None] by simp
  next
    case (Some js)
    then obtain jt where jt: "t a = Some jt" "mimic_requests jt = mimic_requests js"
      "length (joint_state_values jt) = length (joint_state_values js)"
      using shape_eqD [OF Suc.prems] by blast
    have "\<And>m. (case s m of None \<Rightarrow> False
             | Some jm \<Rightarrow> length (joint_state_values jm) \<le> length (joint_state_values js))
          = (case t m of None \<Rightarrow> False
             | Some jm \<Rightarrow> length (joint_state_values jm) \<le> length (joint_state_values jt))"
    proof -
      fix m show "?thesis m"
      proof (cases "s m")
        case None
        then show ?thesis using shape_None [OF Suc.prems None] by simp
      next
        case (Some jm)
        then show ?thesis using shape_eqD [OF Suc.prems Some] jt(3) by auto
      qed
    qed
    then show ?thesis using Some jt(1,2) Suc.IH [OF Suc.prems] by simp
  qed
qed

lemma shape_upd:
  "s a = Some js \<Longrightarrow> mimic_requests js' = mimic_requests js \<Longrightarrow>
   length (joint_state_values js') = length (joint_state_values js) \<Longrightarrow>
   shape (s(a \<mapsto> js')) = shape s"
  by (rule ext) (simp add: shape_def)

lemma mimic_loop_returns:
  assumes call: "\<And>t m buf jm. shape t = shape s \<Longrightarrow> m \<in> set ms \<Longrightarrow> t m = Some jm \<Longrightarrow>
                   length (joint_state_values jm) \<le> length buf \<Longrightarrow>
                   \<exists>t'. call t m buf = Inr t' \<and> shape t' = shape t"
    and self: "s this = Some js"
    and ms: "\<forall>m \<in> set ms. \<exists>jm. s m = Some jm \<and> length (joint_state_values jm) \<le> length (joint_state_values js)"
    and t: "shape t = shape s"
  shows "\<exists>t'. mimic_loop call this ms t = Inr t' \<and> shape t' = shape s"
  using call ms t
proof (induction ms arbitrary: t)
  case Nil
  then show ?case by simp
next
  case (Cons m ms)
  from shape_eqD [OF Cons.prems(3) [symmetric] self] obtain jt where jt: "t this = Some jt"
    "length (joint_state_values jt) = length (joint_state_values js)" by blast
  from Cons.prems(2) obtain jm where jm: "s m = Some jm"
    "length (joint_state_values jm) \<le> length (joint_state_values js)" by auto
  from shape_eqD [OF Cons.prems(3) [symmetric] jm(1)] obtain jm' where jm': "t m = Some jm'"
    "length (joint_state_values jm') = length (joint_state_values jm)" by blast
  let ?buf = "map (\<lambda>v. v * mimic_factor (joint_model jt) + mimic_offset (joint_model jt))
                  (joint_state_values jt)"
  have "length (joint_state_values jm') \<le> length ?buf" using jm jm' jt by simp
  from Cons.prems(1) [OF Cons.prems(3) _ jm'(1) \<open>length (joint_state_values jm') \<le> length ?buf\<close>] obtain t1 where
    t1: "call t m ?buf = Inr t1" "shape t1 = shape t" by auto
  have "\<exists>t'. mimic_loop call this ms t1 = Inr t' \<and> shape t' = shape s"
  proof (rule Cons.IH)
    show "\<exists>t'. call t m buf = Inr t' \<and> shape t' = shape t"
      if "shape t = shape s" "m \<in> set ms" "t m = Some jm" "length (joint_state_values jm) \<le> length buf"
      for t m buf jm
      using Cons.prems(1) [OF that(1) _ that(3,4)] that(2) by simp
    show "\<forall>m\<in>set ms. \<exists>jm. s m = Some jm \<and> length (joint_state_values jm) \<le> length (joint_state_values js)"
      using Cons.prems(2) by simp
    show "shape t1 = shape s" using t1 Cons.prems(3) by simp
  qed
  then show ?case using jt t1 by (simp add: Let_def)
qed

lemma setVariableValuesPtr_returns:
  "mimic_ok n (s :: 't store) a \<Longrightarrow> s a = Some js \<Longrightarrow>
   length (joint_state_values js) \<le> length buf \<Longrightarrow>
     \<exists>s'. setVariableValuesPtr (Suc n) s a buf = Inr s' \<and> shape s' = shape s"
proof (induction n arbitrary: s a js buf)
  case 0
  let ?js' = "js\<lparr>joint_state_values := take (length (joint_state_values js)) buf,
                 variable_transform := update_transform (joint_model js)
                    (take (length (joint_state_values js)) buf) (variable_transform js)\<rparr>"
  have "shape (s(a \<mapsto> ?js')) = shape s"
    using 0 by (intro shape_upd) auto
  then show ?case using 0 by (simp add: Let_def)
next
  case (Suc n)
  let ?js' = "js\<lparr>joint_state_values := take (length (joint_state_values js)) buf,
                 variable_transform := update_transform (joint_model js)
                    (take (length (joint_state_values js)) buf) (variable_transform js)\<rparr>"
  let ?s1 = "s(a \<mapsto> ?js')"
  have sh: "shape ?s1 = shape s"
    using Suc.prems by (intro shape_upd) auto
  have all: "\<forall>m \<in> set (mimic_requests js).
               (\<exists>jm. s m = Some jm \<and> length (joint_state_values jm) \<le> length (joint_state_values js))
               \<and> mimic_ok n s m"
    using Suc.prems(1,2) by (auto simp: list_all_iff split: option.splits)
  have "\<exists>t'. mimic_loop (setVariableValuesPtr (Suc n)) a (mimic_requests js) ?s1 = Inr t'
              \<and> shape t' = shape s"
  proof (rule mimic_loop_returns [where js = js])
    show "s a = Some js" by fact
    show "\<forall>m\<in>set (mimic_requests js). \<exists>jm. s m = Some jm
           \<and> length (joint_state_values jm) \<le> length (joint_state_values js)"
      using all by blast
    show "shape ?s1 = shape s" by fact
    show "\<exists>t'. setVariableValuesPtr (Suc n) t m buf = Inr t' \<and> shape t' = shape t"
      if "shape t = shape s" "m \<in> set (mimic_requests js)" "t m = Some jm"
         "length (joint_state_values jm) \<le> length buf"
      for t :: "'t store" and m buf jm
    proof -
      have "mimic_ok n t m" using all that(1,2) mimic_ok_shape [OF that(1)] by blast
      then show ?thesis using that(3,4) by (rule Suc.IH)
    qed
  qed
  then show ?case using Suc.prems by (simp add: Let_def)
qed

lemma updateMimicJoints_returns:
  assumes "mimic_ok n (s :: 't store) a"
  shows "\<exists>s'. updateMimicJoints n s a = Inr s'"
proof (cases n)
  case 0
  then show ?thesis using assms by (auto simp: updateMimicJoints_def split: option.splits)
next
  case (Suc k)
  from assms Suc obtain js where js: "s a = Some js" by (auto split: option.splits)
  have all: "\<forall>m \<in> set (mimic_requests js).
               (\<exists>jm. s m = Some jm \<and> length (joint_state_values jm) \<le> length (joint_state_values js))
               \<and> mimic_ok k s m"
    using assms Suc js by (auto simp: list_all_iff split: option.splits)
  have "\<exists>t'. mimic_loop (setVariableValuesPtr (Suc k)) a (mimic_requests js) s = Inr t'
              \<and> shape t' = shape s"
  proof (rule mimic_loop_returns [where js = js])
    show "s a = Some js" by fact
    show "\<forall>m\<in>set (mimic_requests js). \<exists>jm. s m = Some jm
           \<and> length (joint_state_values jm) \<le> length (joint_state_values js)"
      using all by blast
    show "shape s = shape s" ..
    show "\<exists>t'. setVariableValuesPtr (Suc k) t m buf = Inr t' \<and> shape t' = shape t"
      if "shape t = shape s" "m \<in> set (mimic_requests js)" "t m = Some jm"
         "length (joint_state_values jm) \<le> length buf"
      for t :: "'t store" and m buf jm
    proof -
      have "mimic_ok k t m" using all that(1,2) mimic_ok_shape [OF that(1)] by blast
      then show ?thesis using that(3,4) by (rule setVariableValuesPtr_returns)
    qed
  qed
  then show ?thesis using js Suc by (auto simp: updateMimicJoints_def)
qed

text \<open>
  C9. \<^verbatim>\<open>JointState::setVariableValues(const std::vector<double>&)\<close> returns false
  exactly when the size of the vector differs from the variable count of the joint, and
  then nothing is changed: the stored values and the transform of the joint state (and
  every other joint state) are as before the call. With the right size the call never
  returns false, and it returns true on a store where the mimic update returns.
\<close>

theorem setVariableValues_false_iff:
  assumes "s this = Some js"
  shows "(length vals \<noteq> getVariableCount js \<longrightarrow>
            setVariableValues fuel s this vals = Inr (False, s)) \<and>
         (length vals = getVariableCount js \<longrightarrow>
            (\<forall>s'. setVariableValues fuel s this vals \<noteq> Inr (False, s'))) \<and>
         (length vals = getVariableCount js \<and> length (joint_state_values js) = getVariableCount js
            \<and> mimic_ok fuel s this \<longrightarrow>
            (\<exists>s'. setVariableValues fuel s this vals = Inr (True, s')))"
proof (intro conjI impI)
  assume "length vals \<noteq> getVariableCount js"
  then show "setVariableValues fuel s this vals = Inr (False, s)"
    using assms by (simp add: setVariableValues_def)
next
  assume "length vals = getVariableCount js"
  then show "\<forall>s'. setVariableValues fuel s this vals \<noteq> Inr (False, s')"
    using assms by (auto simp: setVariableValues_def Let_def split: sum.splits)
next
  assume a: "length vals = getVariableCount js \<and> length (joint_state_values js) = getVariableCount js
            \<and> mimic_ok fuel s this"
  let ?js' = "js\<lparr>joint_state_values := vals,
                 variable_transform := update_transform (joint_model js) vals (variable_transform js)\<rparr>"
  have "shape (s(this \<mapsto> ?js')) = shape s"
    using assms a by (intro shape_upd) auto
  then have "mimic_ok fuel (s(this \<mapsto> ?js')) this"
    using a mimic_ok_shape by blast
  then obtain s' where "updateMimicJoints fuel (s(this \<mapsto> ?js')) this = Inr s'"
    using updateMimicJoints_returns by blast
  then show "\<exists>s'. setVariableValues fuel s this vals = Inr (True, s')"
    using assms a by (simp add: setVariableValues_def Let_def)
qed

theorem setVariableValues_false_iff_witness:
  "setVariableValues 1 example_store 0 [1, 2, 3] = Inr (False, example_store) \<and>
   (\<forall>s'. setVariableValues 1 example_store 0 [1, 2] \<noteq> Inr (False, s')) \<and>
   (\<exists>s'. setVariableValues 1 example_store 0 [1, 2] = Inr (True, s'))"
  using setVariableValues_false_iff [of example_store 0 "example_joint [1]" "[1, 2, 3]" 1]
    setVariableValues_false_iff [of example_store 0 "example_joint [1]" "[1, 2]" 1]
  by (simp add: example_store_def example_joint_def example_model_def getVariableCount_def)

section \<open>Setting the values of a joint state from a map\<close>

lemma loop_index_map_missing_eq:
  "map_sum id (\<lambda>(b, v, m). (b, v)) (loop_index_map_missing jvm vim b vals missing)
     = loop_index_map jvm vim b vals"
  by (induction vim arbitrary: b vals missing) (auto split: option.splits)

lemma loop_index_map_writes:
  "loop_index_map jvm vim b vals = apply_writes (map (\<lambda>(k, i, v). (i, v)) (common_by_index jvm vim)) b vals"
  unfolding common_by_index_def
  by (induction vim arbitrary: b vals) (auto split: option.splits)

lemma loop_value_map_writes:
  "loop_value_map vim jvm b vals = apply_writes (map (\<lambda>(k, i, v). (i, v)) (common_by_value vim jvm)) b vals"
  unfolding common_by_value_def
  by (induction jvm arbitrary: b vals) (auto split: option.splits)

lemma std_map_distinct: "std_map m \<Longrightarrow> distinct (map fst m)"
  by (simp add: std_map_def strict_sorted_iff)

lemma set_common_by_index:
  "distinct (map fst jvm) \<Longrightarrow>
   set (common_by_index jvm vim) = {(k, i, v). (k, i) \<in> set vim \<and> (k, v) \<in> set jvm}"
  unfolding common_by_index_def
  by (induction vim) (auto split: option.splits)

lemma set_common_by_value:
  "distinct (map fst vim) \<Longrightarrow>
   set (common_by_value vim jvm) = {(k, i, v). (k, i) \<in> set vim \<and> (k, v) \<in> set jvm}"
  unfolding common_by_value_def
  by (induction jvm) (auto split: option.splits)

lemma keys_common_by_index: "map fst (common_by_index jvm vim) = filter (\<lambda>k. map_of jvm k \<noteq> None) (map fst vim)"
  unfolding common_by_index_def
  by (induction vim) (auto split: option.splits)

lemma keys_common_by_value: "map fst (common_by_value vim jvm) = filter (\<lambda>k. map_of vim k \<noteq> None) (map fst jvm)"
  unfolding common_by_value_def
  by (induction jvm) (auto split: option.splits)

lemma common_eq:
  assumes "std_map jvm" "std_map vim"
  shows "common_by_index jvm vim = common_by_value vim jvm"
proof -
  let ?a = "common_by_index jvm vim" and ?b = "common_by_value vim jvm"
  have dj: "distinct (map fst jvm)" and dv: "distinct (map fst vim)"
    using assms by (simp_all add: std_map_distinct)
  have sets: "set ?a = set ?b"
    by (simp add: set_common_by_index [OF dj] set_common_by_value [OF dv])
  have sa: "sorted_wrt (<) (map fst ?a)"
    using assms(2) by (simp add: keys_common_by_index std_map_def sorted_wrt_filter)
  have sb: "sorted_wrt (<) (map fst ?b)"
    using assms(1) by (simp add: keys_common_by_value std_map_def sorted_wrt_filter)
  have "set (map fst ?b) = set (map fst ?a)"
    using sets by simp
  then have keys: "map fst ?a = map fst ?b"
    using strict_sorted_equal [OF sa sb] by simp
  have "inj_on fst (set ?a \<union> set ?b)"
  proof (rule inj_onI)
    fix x y assume "x \<in> set ?a \<union> set ?b" "y \<in> set ?a \<union> set ?b" "fst x = fst y"
    then have x: "x \<in> {(k, i, v). (k, i) \<in> set vim \<and> (k, v) \<in> set jvm}"
      and y: "y \<in> {(k, i, v). (k, i) \<in> set vim \<and> (k, v) \<in> set jvm}"
      using sets set_common_by_index [OF dj] by auto
    obtain k i v where xe: "x = (k, i, v)" by (cases x)
    obtain k' i' v' where ye: "y = (k', i', v')" by (cases y)
    from \<open>fst x = fst y\<close> xe ye have kk: "k' = k" by simp
    from x y xe ye kk have "(k, i) \<in> set vim" "(k, i') \<in> set vim" "(k, v) \<in> set jvm" "(k, v') \<in> set jvm"
      by auto
    then have "i = i'" "v = v'"
      using dj dv by (auto dest: eq_key_imp_eq_value)
    then show "x = y" using xe ye kk by simp
  qed
  then show ?thesis using keys by (rule map_inj_on [rotated])
qed

text \<open>
  C10. The two overloads of \<^verbatim>\<open>JointState::setVariableValues\<close> that take a map of
  variable names to values, the one that also collects the missing variables and the one
  that walks the shorter of the two maps, leave the same store: the same stored values
  and the same transform of the joint state, and the same mimic updates, or the same
  failure. Which of its two loops the second overload takes makes no difference.
\<close>

theorem setVariableValues_overloads_agree:
  assumes "std_map joint_value_map"
    and "s this = Some js"
    and "std_map (getVariableIndexMap js)"
  shows "map_sum id fst (setVariableValuesMissing fuel s this joint_value_map missing)
           = setVariableValuesMap fuel s this joint_value_map"
proof -
  note Some = assms(2)
  let ?vim = "getVariableIndexMap js"
  have sv: "std_map ?vim" by fact
  have eq: "loop_value_map ?vim joint_value_map False (joint_state_values js)
            = loop_index_map joint_value_map ?vim False (joint_state_values js)"
    by (simp add: loop_index_map_writes loop_value_map_writes common_eq [OF assms(1) sv])
  have m: "map_sum id (\<lambda>(b, v, m). (b, v))
             (loop_index_map_missing joint_value_map ?vim False (joint_state_values js) missing)
           = loop_index_map joint_value_map ?vim False (joint_state_values js)"
    by (rule loop_index_map_missing_eq)
  show ?thesis
  proof (cases "loop_index_map_missing joint_value_map ?vim False (joint_state_values js) missing")
    case (Inl e)
    with m have "loop_index_map joint_value_map ?vim False (joint_state_values js) = Inl e" by simp
    with Inl Some eq show ?thesis
      by (simp add: setVariableValuesMissing_def setVariableValuesMap_def)
  next
    case (Inr r)
    obtain b vals ms where r: "r = (b, vals, ms)" by (cases r)
    with Inr m have "loop_index_map joint_value_map ?vim False (joint_state_values js) = Inr (b, vals)"
      by simp
    with Inr r Some eq show ?thesis
      by (auto simp: setVariableValuesMissing_def setVariableValuesMap_def Let_def split: sum.splits)
  qed
qed

theorem setVariableValues_overloads_agree_witness:
  "map_sum id fst (setVariableValuesMissing 1 example_store 0 [(''y'', 5)] [])
     = setVariableValuesMap 1 example_store 0 [(''y'', 5)] \<and>
   map_sum id fst (setVariableValuesMissing 1 example_store 0 [(''a'', 3), (''x'', 4), (''z'', 1)] [])
     = setVariableValuesMap 1 example_store 0 [(''a'', 3), (''x'', 4), (''z'', 1)]"
  using setVariableValues_overloads_agree [of "[(''y'', 5)]" example_store 0 "example_joint [1]" 1 "[]"]
    setVariableValues_overloads_agree
      [of "[(''a'', 3), (''x'', 4), (''z'', 1)]" example_store 0 "example_joint [1]" 1 "[]"]
  by (simp add: std_map_def example_store_def example_joint_def example_model_def
        getVariableIndexMap_def)

section \<open>The controller selector returns a smallest cover\<close>

subsection \<open>Combinations\<close>

lemma combinations_sound:
  "ys \<in> set (combinations k xs) \<Longrightarrow> length ys = k \<and> set ys \<subseteq> set xs"
proof (induction k xs arbitrary: ys rule: combinations.induct)
  case (1 xs)
  then show ?case by simp
next
  case (2 k)
  then show ?case by simp
next
  case (3 k x xs)
  from "3.prems" consider zs where "ys = x # zs" "zs \<in> set (combinations k xs)"
    | "ys \<in> set (combinations (Suc k) xs)" by auto
  then show ?case
  proof cases
    case 1
    then show ?thesis using "3.IH"(1) [of zs] by auto
  next
    case 2
    then show ?thesis using "3.IH"(2) [of ys] by auto
  qed
qed

lemma combinations_weaken:
  "ys \<in> set (combinations k xs) \<Longrightarrow> ys \<in> set (combinations k (x # xs))"
  by (cases k) simp_all

lemma combinations_complete:
  "S \<subseteq> set xs \<Longrightarrow> \<exists>ys \<in> set (combinations (card S) xs). set ys = S"
proof (induction xs arbitrary: S)
  case Nil
  then show ?case by simp
next
  case (Cons x xs)
  have fin: "finite S" using Cons.prems by (rule finite_subset) simp
  show ?case
  proof (cases "x \<in> S")
    case True
    have "S - {x} \<subseteq> set xs" using Cons.prems by auto
    from Cons.IH [OF this] obtain ys n where
      ys: "ys \<in> set (combinations n xs)" "set ys = S - {x}" and n: "n = card (S - {x})"
      by blast
    have "card S = Suc (card (S - {x}))" using fin True by (rule card.remove)
    then have "card S = Suc n" by (simp only: n)
    then have "x # ys \<in> set (combinations (card S) (x # xs))" using ys(1) by simp
    moreover have "set (x # ys) = S" using ys(2) True by auto
    ultimately show ?thesis by blast
  next
    case False
    then have "S \<subseteq> set xs" using Cons.prems by auto
    from Cons.IH [OF this] obtain ys where
      ys: "ys \<in> set (combinations (card S) xs)" "set ys = S" by blast
    then have "ys \<in> set (combinations (card S) (x # xs))" by (intro combinations_weaken)
    then show ?thesis using ys(2) by blast
  qed
qed

subsection \<open>The candidates in order\<close>

lemma set_insert_controller: "set (insert_controller x ys) = insert x (set ys)"
  by (induction ys) auto

lemma set_foldr_insert_controller: "set (foldr insert_controller xs []) = set xs"
  by (induction xs) (simp_all add: set_insert_controller)

lemma set_map_filter: "set (List.map_filter f xs) = {y. \<exists>x \<in> set xs. f x = Some y}"
  by (induction xs) (auto split: option.splits)

lemma set_ordered_controllers:
  "set (ordered_controllers known available) = {c \<in> set available. map_of known c \<noteq> None}"
proof -
  have "fst ` {y. \<exists>x\<in>set available. map_option (Pair x) (map_of known x) = Some y}
        = {c \<in> set available. map_of known c \<noteq> None}"
    by (auto simp: image_iff)
  then show ?thesis
    by (simp add: ordered_controllers_def set_foldr_insert_controller set_map_filter)
qed

subsection \<open>The best option\<close>

lemma best_option_mem: "best_option known xs = Some x \<Longrightarrow> x \<in> set xs"
  by (induction xs arbitrary: x) (auto split: option.splits if_splits)

lemma best_option_None: "best_option known xs = None \<longleftrightarrow> xs = []"
  by (induction xs) (auto split: option.splits)

lemma findControllers_Some:
  assumes "findControllers known act k av = Some sel"
  shows "length sel = k" and "set sel \<subseteq> {c \<in> set av. map_of known c \<noteq> None}"
    and "checkControllerCombination known sel act"
proof -
  from assms have "sel \<in> set (filter (\<lambda>cs. checkControllerCombination known cs act)
                      (combinations k (ordered_controllers known av)))"
    unfolding findControllers_def by (rule best_option_mem)
  then have m: "sel \<in> set (combinations k (ordered_controllers known av))"
    and c: "checkControllerCombination known sel act" by simp_all
  from combinations_sound [OF m] show "length sel = k"
    and "set sel \<subseteq> {c \<in> set av. map_of known c \<noteq> None}"
    by (simp_all add: set_ordered_controllers)
  from c show "checkControllerCombination known sel act" .
qed

lemma findControllers_None:
  assumes "findControllers known act k av = None"
    and "ys \<in> set (combinations k (ordered_controllers known av))"
  shows "\<not> checkControllerCombination known ys act"
  using assms unfolding findControllers_def best_option_None
  by (auto simp: filter_empty_conv)

lemma first_cover_upt:
  "first_cover known act av [i..<j] = Some sel \<Longrightarrow>
     \<exists>k. i \<le> k \<and> k < j \<and> findControllers known act k av = Some sel \<and>
         (\<forall>k'. i \<le> k' \<and> k' < k \<longrightarrow> findControllers known act k' av = None)"
proof (induction "j - i" arbitrary: i)
  case 0
  then show ?case by simp
next
  case (Suc d)
  then have lt: "i < j" by simp
  then have upt: "[i..<j] = i # [Suc i..<j]" by (simp add: upt_rec)
  show ?case
  proof (cases "findControllers known act i av")
    case (Some r)
    then have "r = sel" using Suc.prems upt by simp
    then show ?thesis using Some lt by (intro exI [of _ i]) auto
  next
    case None
    then have "first_cover known act av [Suc i..<j] = Some sel" using Suc.prems upt by simp
    moreover have "d = j - Suc i" using Suc.hyps(2) by simp
    ultimately obtain k where k: "Suc i \<le> k" "k < j" "findControllers known act k av = Some sel"
      "\<forall>k'. Suc i \<le> k' \<and> k' < k \<longrightarrow> findControllers known act k' av = None"
      using Suc.hyps(1) by blast
    have "\<forall>k'. i \<le> k' \<and> k' < k \<longrightarrow> findControllers known act k' av = None"
    proof (intro allI impI)
      fix k' assume "i \<le> k' \<and> k' < k"
      then show "findControllers known act k' av = None"
        using k(4) None by (cases "k' = i") auto
    qed
    then show ?thesis using k by (intro exI [of _ k]) auto
  qed
qed

lemma selectControllers_Some:
  assumes "selectControllers known act av = Some sel"
  shows "1 \<le> length sel" and "set sel \<subseteq> {c \<in> set av. map_of known c \<noteq> None}"
    and "checkControllerCombination known sel act"
    and "\<forall>k'. 1 \<le> k' \<and> k' < length sel \<longrightarrow> findControllers known act k' av = None"
proof -
  from assms obtain k where k: "1 \<le> k" "findControllers known act k av = Some sel"
    "\<forall>k'. 1 \<le> k' \<and> k' < k \<longrightarrow> findControllers known act k' av = None"
    unfolding selectControllers_def by (blast dest: first_cover_upt)
  from findControllers_Some [OF k(2)] k
  show "1 \<le> length sel" and "set sel \<subseteq> {c \<in> set av. map_of known c \<noteq> None}"
    and "checkControllerCombination known sel act"
    and "\<forall>k'. 1 \<le> k' \<and> k' < length sel \<longrightarrow> findControllers known act k' av = None"
    by simp_all
qed

lemma cover_known:
  "(\<Union>c \<in> {c \<in> S. map_of known c \<noteq> None}. joints_of known c) = (\<Union>c \<in> S. joints_of known c)"
  by (auto simp: joints_of_def split: option.splits)

lemma selectControllers_least:
  assumes sel: "selectControllers known act av = Some sel"
    and S: "S \<subseteq> set av" "S \<noteq> {}" "act \<subseteq> (\<Union>c \<in> S. joints_of known c)"
  shows "length sel \<le> card S"
proof -
  note facts = selectControllers_Some [OF sel]
  have finS: "finite S" using S(1) by (rule finite_subset) simp
  have oneS: "1 \<le> card S" using S(2) finS by (simp add: Suc_leI card_gt_0_iff)
  let ?K = "{c \<in> S. map_of known c \<noteq> None}"
  let ?ord = "ordered_controllers known av"
  obtain T where T: "T \<subseteq> set ?ord" "T \<noteq> {}" "card T \<le> card S"
    "act \<subseteq> (\<Union>c \<in> T. joints_of known c)"
  proof (cases "?K = {}")
    case True
    then have "(\<Union>c \<in> S. joints_of known c) = {}"
      by (auto simp: joints_of_def)
    then have act: "act = {}" using S(3) by simp
    from facts(1) obtain c where c: "c \<in> set sel" by (cases sel) auto
    then have "c \<in> set ?ord" using facts(2) by (auto simp: set_ordered_controllers)
    then have "{c} \<subseteq> set ?ord" by simp
    moreover have "{c} \<noteq> {}" by simp
    moreover have "card {c} \<le> card S" using oneS by simp
    moreover have "act \<subseteq> (\<Union>c \<in> {c}. joints_of known c)" using act by simp
    ultimately show ?thesis by (rule that)
  next
    case False
    have "?K \<subseteq> set ?ord" using S(1) by (auto simp: set_ordered_controllers)
    moreover note False
    moreover have "card ?K \<le> card S" using finS by (intro card_mono) auto
    moreover have "act \<subseteq> (\<Union>c \<in> ?K. joints_of known c)"
      using S(3) by (simp only: cover_known)
    ultimately show ?thesis by (rule that)
  qed
  have finT: "finite T" using T(1) by (rule finite_subset) simp
  from combinations_complete [OF T(1)] obtain ys where
    ys: "ys \<in> set (combinations (card T) ?ord)" "set ys = T" by blast
  have "checkControllerCombination known ys act"
    using T(4) ys(2) by (simp add: checkControllerCombination_def)
  then have found: "findControllers known act (card T) av \<noteq> None"
    using findControllers_None [OF _ ys(1)] by blast
  have one: "1 \<le> card T" using T(2) finT by (simp add: Suc_leI card_gt_0_iff)
  from facts(4) have "1 \<le> card T \<and> card T < length sel \<longrightarrow>
      findControllers known act (card T) av = None" by (rule spec)
  with found one have "\<not> card T < length sel" by auto
  then show ?thesis using T(3) by simp
qed

lemma selectControllers_distinct:
  assumes "selectControllers known act av = Some sel"
  shows "distinct sel"
proof -
  note facts = selectControllers_Some [OF assms]
  have "set sel \<subseteq> set av" using facts(2) by auto
  moreover have "set sel \<noteq> {}" using facts(1) by (cases sel) auto
  moreover have "act \<subseteq> (\<Union>c \<in> set sel. joints_of known c)"
    using facts(3) by (simp add: checkControllerCombination_def)
  ultimately have "length sel \<le> card (set sel)" by (rule selectControllers_least [OF assms])
  then show ?thesis using card_length [of sel] by (simp add: card_distinct)
qed

lemma example_selection:
  "selectControllers example_registry {''j1'', ''j2'', ''j3''} [''A'', ''B''] = Some [''A'', ''B'']"
  by (simp add: selectControllers_def findControllers_def example_registry_def
        example_controller_def ordered_controllers_def ci_less_def
        checkControllerCombination_def score_def score_less_def joints_of_def upt_rec)

lemma configure_selects:
  assumes "configure known t cs = Some ctx"
  shows "actuated_joints_of t \<noteq> {}"
    and "selectControllers known (actuated_joints_of t) (if cs = [] then map fst known else cs)
           = Some (controllers ctx)"
  using assms by (auto simp: configure_def split: if_splits option.splits)

text \<open>
  C2. For every set of actuated joints of a request (push/configure hands the selector
  the joints of a trajectory that has some) and every list of available controllers, when
  the controller selector succeeds, the controllers it returns are available controllers
  whose joint sets together include all actuated joints, none of them twice, and no
  subset of the available controllers with fewer members covers the actuated joints.
\<close>

theorem selectControllers_minimum_cover:
  assumes "selectControllers known actuated_joints available = Some selected"
    and "actuated_joints \<noteq> {}"
  shows "actuated_joints \<subseteq> (\<Union>c \<in> set selected. joints_of known c) \<and>
         set selected \<subseteq> set available \<and> distinct selected \<and>
         (\<forall>S. S \<subseteq> set available \<and> card S < length selected \<longrightarrow>
              \<not> actuated_joints \<subseteq> (\<Union>c \<in> S. joints_of known c))"
proof (intro conjI allI impI)
  note facts = selectControllers_Some [OF assms(1)]
  show "actuated_joints \<subseteq> (\<Union>c \<in> set selected. joints_of known c)"
    using facts(3) by (simp add: checkControllerCombination_def)
  show "set selected \<subseteq> set available" using facts(2) by auto
  show "distinct selected" using assms(1) by (rule selectControllers_distinct)
  fix S assume S: "S \<subseteq> set available \<and> card S < length selected"
  show "\<not> actuated_joints \<subseteq> (\<Union>c \<in> S. joints_of known c)"
  proof
    assume cover: "actuated_joints \<subseteq> (\<Union>c \<in> S. joints_of known c)"
    have "S \<noteq> {}"
    proof
      assume "S = {}"
      then have "actuated_joints = {}" using cover by simp
      then show False using assms(2) by simp
    qed
    moreover have "S \<subseteq> set available" using S by simp
    ultimately have "length selected \<le> card S"
      using cover by (intro selectControllers_least [OF assms(1)])
    then show False using S by simp
  qed
qed

theorem selectControllers_minimum_cover_witness:
  "selectControllers example_registry {''j1'', ''j2'', ''j3''} [''A'', ''B''] = Some [''A'', ''B''] \<and>
   {''j1'', ''j2'', ''j3''} \<noteq> ({} :: string set) \<and>
   {''j1'', ''j2'', ''j3''} \<subseteq> (\<Union>c \<in> set [''A'', ''B'']. joints_of example_registry c) \<and>
   distinct [''A'', ''B''] \<and>
   \<not> {''j1'', ''j2'', ''j3''} \<subseteq> (\<Union>c \<in> {''A''}. joints_of example_registry c) \<and>
   \<not> {''j1'', ''j2'', ''j3''} \<subseteq> (\<Union>c \<in> {}. joints_of example_registry c)"
proof -
  have ne: "{''j1'', ''j2'', ''j3''} \<noteq> ({} :: string set)" by simp
  note inst = selectControllers_minimum_cover [OF example_selection ne]
  from inst have "{''A''} \<subseteq> set [''A'', ''B''] \<and> card {''A''} < length [''A'', ''B''] \<longrightarrow>
      \<not> {''j1'', ''j2'', ''j3''} \<subseteq> (\<Union>c \<in> {''A''}. joints_of example_registry c)"
    by blast
  then have one: "\<not> {''j1'', ''j2'', ''j3''} \<subseteq> (\<Union>c \<in> {''A''}. joints_of example_registry c)"
    by simp
  from inst have "{} \<subseteq> set [''A'', ''B''] \<and> card ({} :: string set) < length [''A'', ''B''] \<longrightarrow>
      \<not> {''j1'', ''j2'', ''j3''} \<subseteq> (\<Union>c \<in> {}. joints_of example_registry c)"
    by blast
  then have none: "\<not> {''j1'', ''j2'', ''j3''} \<subseteq> (\<Union>c \<in> {}. joints_of example_registry c)"
    by simp
  show ?thesis using inst example_selection ne one none by blast
qed

section \<open>The trajectory distributor splits the joints among the controllers\<close>

subsection \<open>The owner of a joint\<close>

lemma ci_less_asym: "ci_less a b \<Longrightarrow> \<not> ci_less b a"
  by (auto simp: ci_less_def split: if_splits)

lemma ci_less_cotrans: "ci_less a c \<Longrightarrow> ci_less a b \<or> ci_less b c"
  by (auto simp: ci_less_def split: if_splits)

lemma least_controller_mem: "least_controller xs = Some x \<Longrightarrow> x \<in> set xs"
  by (induction xs arbitrary: x) (auto split: option.splits if_splits)

lemma least_controller_None: "least_controller xs = None \<longleftrightarrow> xs = []"
  by (induction xs) (auto split: option.splits)

lemma least_controller_min:
  "least_controller xs = Some x \<Longrightarrow> y \<in> set xs \<Longrightarrow> \<not> ci_less (snd y) (snd x)"
proof (induction xs arbitrary: x)
  case Nil
  then show ?case by simp
next
  case (Cons z zs)
  show ?case
  proof (cases "least_controller zs")
    case None
    then have "zs = []" by (simp add: least_controller_None)
    then show ?thesis using Cons.prems by (auto dest: ci_less_asym)
  next
    case (Some r)
    note IH = Cons.IH [OF Some]
    show ?thesis
    proof (cases "ci_less (snd r) (snd z)")
      case True
      then have x: "x = r" using Cons.prems(1) Some by simp
      show ?thesis
      proof (cases "y = z")
        case True
        then show ?thesis using x \<open>ci_less (snd r) (snd z)\<close> by (auto dest: ci_less_asym)
      next
        case False
        then have "y \<in> set zs" using Cons.prems(2) by simp
        then show ?thesis using IH x by simp
      qed
    next
      case False
      then have x: "x = z" using Cons.prems(1) Some by simp
      show ?thesis
      proof (cases "y = z")
        case True
        then show ?thesis using x by (auto dest: ci_less_asym)
      next
        case yz: False
        then have "y \<in> set zs" using Cons.prems(2) by simp
        then have "\<not> ci_less (snd y) (snd r)" by (rule IH)
        then show ?thesis using False x ci_less_cotrans [of "snd y" "snd z" "snd r"] by auto
      qed
    qed
  qed
qed

lemma set_candidates:
  "set (candidates known cs j) = {(c, ci). c \<in> set cs \<and> map_of known c = Some ci \<and> j \<in> joints ci}"
  unfolding candidates_def set_map_filter
  by (auto split: option.splits if_splits)

lemma owner_SomeD:
  assumes "owner known cs j = Some c"
  shows "c \<in> set cs" and "j \<in> joints_of known c"
proof -
  from assms obtain x where x: "least_controller (candidates known cs j) = Some x" "fst x = c"
    by (auto simp: owner_def)
  from least_controller_mem [OF x(1)] have "x \<in> set (candidates known cs j)" .
  then show "c \<in> set cs" and "j \<in> joints_of known c"
    using x(2) by (auto simp: set_candidates joints_of_def)
qed

lemma owner_None: "owner known cs j = None \<longleftrightarrow> (\<forall>c \<in> set cs. j \<notin> joints_of known c)"
proof -
  have "owner known cs j = None \<longleftrightarrow> set (candidates known cs j) = {}"
    by (simp add: owner_def least_controller_None)
  also have "\<dots> \<longleftrightarrow> (\<forall>c \<in> set cs. j \<notin> joints_of known c)"
    by (auto simp: set_candidates joints_of_def split: option.splits)
  finally show ?thesis .
qed

lemma owner_min:
  assumes "owner known cs j = Some c" and "map_of known c = Some ci"
    and "c' \<in> set cs" and "map_of known c' = Some ci'" and "j \<in> joints ci'"
  shows "\<not> ci_less ci' ci"
proof -
  from assms(1) obtain x where x: "least_controller (candidates known cs j) = Some x" "fst x = c"
    by (auto simp: owner_def)
  from least_controller_mem [OF x(1)] have "x \<in> set (candidates known cs j)" .
  then have "snd x = ci" using x(2) assms(2) by (auto simp: set_candidates)
  moreover have "(c', ci') \<in> set (candidates known cs j)"
    using assms(3-5) by (simp add: set_candidates)
  ultimately show ?thesis using least_controller_min [OF x(1), of "(c', ci')"] by simp
qed

subsection \<open>The parts\<close>

lemma part_joints_trajectory_part:
  "part_joints (trajectory_part known cs t c) = {j \<in> actuated_joints_of t. owner known cs j = Some c}"
  by (auto simp: part_joints_def trajectory_part_def actuated_joints_of_def Let_def)

lemma distributeTrajectory_SomeD:
  assumes "distributeTrajectory known t cs = Some parts"
  shows "parts = map (trajectory_part known cs t) cs"
    and "\<And>j. j \<in> actuated_joints_of t \<Longrightarrow> owner known cs j \<noteq> None"
  using assms
  by (auto simp: distributeTrajectory_def actuated_joints_of_def list_all_iff split: if_splits)

lemma distribute_partition:
  assumes d: "distributeTrajectory known t cs = Some parts" and dist: "distinct cs"
  shows "length parts = length cs"
    and "\<And>j. j \<in> actuated_joints_of t \<Longrightarrow> \<exists>!i. i < length parts \<and> j \<in> part_joints (parts ! i)"
    and "(\<Union>p \<in> set parts. part_joints p) = actuated_joints_of t"
proof -
  note parts = distributeTrajectory_SomeD(1) [OF d]
  show len: "length parts = length cs" by (simp add: parts)
  have nth: "part_joints (parts ! i) = {j \<in> actuated_joints_of t. owner known cs j = Some (cs ! i)}"
    if "i < length cs" for i
    using that by (simp add: parts part_joints_trajectory_part)
  show "\<exists>!i. i < length parts \<and> j \<in> part_joints (parts ! i)" if j: "j \<in> actuated_joints_of t" for j
  proof -
    from distributeTrajectory_SomeD(2) [OF d j] obtain c where c: "owner known cs j = Some c"
      by auto
    then have "c \<in> set cs" by (rule owner_SomeD)
    with dist have "\<exists>!i. i < length cs \<and> cs ! i = c" by (rule distinct_Ex1)
    then obtain i where i: "i < length cs" "cs ! i = c" "\<And>k. k < length cs \<Longrightarrow> cs ! k = c \<Longrightarrow> k = i"
      by blast
    show ?thesis
    proof (rule ex1I [of _ i])
      show "i < length parts \<and> j \<in> part_joints (parts ! i)"
        using i(1,2) c j len by (simp add: nth)
      show "k = i" if "k < length parts \<and> j \<in> part_joints (parts ! k)" for k
      proof -
        from that have k: "k < length cs" and "j \<in> part_joints (parts ! k)" using len by simp_all
        then have "owner known cs j = Some (cs ! k)" by (simp add: nth)
        then have "cs ! k = c" using c by simp
        with k show ?thesis by (rule i(3))
      qed
    qed
  qed
  show "(\<Union>p \<in> set parts. part_joints p) = actuated_joints_of t"
  proof (intro equalityI subsetI)
    fix j assume "j \<in> (\<Union>p \<in> set parts. part_joints p)"
    then show "j \<in> actuated_joints_of t"
      by (auto simp: parts part_joints_trajectory_part)
  next
    fix j assume j: "j \<in> actuated_joints_of t"
    from distributeTrajectory_SomeD(2) [OF d j] obtain c where c: "owner known cs j = Some c"
      by auto
    then have "c \<in> set cs" by (rule owner_SomeD)
    then have "trajectory_part known cs t c \<in> set parts" by (simp add: parts)
    moreover have "j \<in> part_joints (trajectory_part known cs t c)"
      using j c by (simp add: part_joints_trajectory_part)
    ultimately show "j \<in> (\<Union>p \<in> set parts. part_joints p)" by blast
  qed
qed

lemma example_distribution:
  "distributeTrajectory example_registry example_trajectory [''A'', ''B''] = Some example_parts"
  by (simp add: distributeTrajectory_def trajectory_part_def owner_def candidates_def
        example_registry_def example_controller_def example_trajectory_def example_parts_def
        restrict_point_def select_rows_def ci_less_def)

lemma example_configuration:
  "configure example_registry example_trajectory []
     = Some \<lparr>controllers = [''A'', ''B''], trajectory_parts = example_parts\<rparr>"
proof -
  have "map fst example_registry = [''A'', ''B'']"
    by (simp add: example_registry_def example_controller_def)
  moreover have "actuated_joints_of example_trajectory = {''j1'', ''j2'', ''j3''}"
    by (simp add: actuated_joints_of_def example_trajectory_def)
  ultimately show ?thesis
    by (simp add: configure_def example_selection example_distribution)
qed

text \<open>
  C1. For every trajectory that push/configure turns into a context, the distributor
  gives one part for each selected controller, every joint named in the trajectory is in
  exactly one part, and the joints of the parts together are the actuated joints of the
  request.
\<close>

theorem configure_partition:
  assumes "configure known t cs = Some ctx"
  shows "length (trajectory_parts ctx) = length (controllers ctx) \<and>
         (\<forall>j \<in> actuated_joints_of t.
            \<exists>!i. i < length (trajectory_parts ctx) \<and> j \<in> part_joints (trajectory_parts ctx ! i)) \<and>
         (\<Union>p \<in> set (trajectory_parts ctx). part_joints p) = actuated_joints_of t"
proof -
  let ?av = "if cs = [] then map fst known else cs"
  from assms obtain selected parts where
    sel: "selectControllers known (actuated_joints_of t) ?av = Some selected"
    and d: "distributeTrajectory known t selected = Some parts"
    and ctx: "ctx = \<lparr>controllers = selected, trajectory_parts = parts\<rparr>"
    by (auto simp: configure_def split: if_splits option.splits)
  have dist: "distinct selected" using sel by (rule selectControllers_distinct)
  note p = distribute_partition [OF d dist]
  show ?thesis using p(1) p(2) p(3) by (simp add: ctx)
qed

theorem configure_partition_witness:
  "configure example_registry example_trajectory []
     = Some \<lparr>controllers = [''A'', ''B''], trajectory_parts = example_parts\<rparr> \<and>
   length example_parts = length [''A'', ''B''] \<and>
   (\<exists>!i. i < length example_parts \<and> ''j2'' \<in> part_joints (example_parts ! i)) \<and>
   (\<Union>p \<in> set example_parts. part_joints p) = actuated_joints_of example_trajectory"
proof -
  note inst = configure_partition [OF example_configuration,
      unfolded TrajectoryExecutionContext.select_convs]
  have "''j2'' \<in> actuated_joints_of example_trajectory"
    by (simp add: actuated_joints_of_def example_trajectory_def)
  with inst have "\<exists>!i. i < length example_parts \<and> ''j2'' \<in> part_joints (example_parts ! i)"
    by blast
  with inst example_configuration show ?thesis by blast
qed

text \<open>
  C3. When two of the selected controllers both list a joint of the trajectory, the
  distributor does not give the joint to the one that is greater in the ControllerInfo
  ordering (the larger joint set, or the greater name on equal sizes): the joint is in
  exactly one part, and in the part of the smaller controller when no third controller
  lists it.
\<close>

theorem distributeTrajectory_overlap:
  assumes "distributeTrajectory known t cs = Some parts"
    and "distinct cs"
    and "a < length cs" and "b < length cs"
    and "map_of known (cs ! a) = Some ca" and "map_of known (cs ! b) = Some cb"
    and "j \<in> joints ca" and "j \<in> joints cb"
    and "j \<in> actuated_joints_of t"
    and "ci_less ca cb"
  shows "j \<notin> part_joints (parts ! b) \<and>
         (\<exists>!i. i < length parts \<and> j \<in> part_joints (parts ! i)) \<and>
         ((\<forall>c \<in> set cs. c \<noteq> cs ! a \<and> c \<noteq> cs ! b \<longrightarrow> j \<notin> joints_of known c) \<longrightarrow>
            j \<in> part_joints (parts ! a))"
proof (intro conjI impI)
  note parts = distributeTrajectory_SomeD(1) [OF assms(1)]
  have nth: "part_joints (parts ! i) = {j \<in> actuated_joints_of t. owner known cs j = Some (cs ! i)}"
    if "i < length cs" for i
    using that by (simp add: parts part_joints_trajectory_part)
  have not_b: "owner known cs j \<noteq> Some (cs ! b)"
  proof
    assume "owner known cs j = Some (cs ! b)"
    from owner_min [OF this assms(6) _ assms(5) assms(7)] assms(3)
    have "\<not> ci_less ca cb" by simp
    then show False using assms(10) by simp
  qed
  then show "j \<notin> part_joints (parts ! b)" using assms(4) by (simp add: nth)
  show "\<exists>!i. i < length parts \<and> j \<in> part_joints (parts ! i)"
    using assms(9) by (rule distribute_partition(2) [OF assms(1,2)])
  assume only: "\<forall>c \<in> set cs. c \<noteq> cs ! a \<and> c \<noteq> cs ! b \<longrightarrow> j \<notin> joints_of known c"
  from distributeTrajectory_SomeD(2) [OF assms(1) assms(9)] obtain c where
    c: "owner known cs j = Some c" by auto
  from owner_SomeD [OF c] only have "c = cs ! a \<or> c = cs ! b" by blast
  then have "c = cs ! a" using c not_b by auto
  then show "j \<in> part_joints (parts ! a)" using c assms(3,9) by (simp add: nth)
qed

theorem distributeTrajectory_overlap_witness:
  "distributeTrajectory example_registry example_trajectory [''A'', ''B''] = Some example_parts \<and>
   ''j2'' \<notin> part_joints (example_parts ! 1) \<and>
   ''j2'' \<in> part_joints (example_parts ! 0) \<and>
   (\<exists>!i. i < length example_parts \<and> ''j2'' \<in> part_joints (example_parts ! i))"
proof -
  have "ci_less (snd (example_controller ''A'' {''j1'', ''j2''}))
                (snd (example_controller ''B'' {''j2'', ''j3''}))"
    by (simp add: ci_less_def example_controller_def)
  then have inst: "''j2'' \<notin> part_joints (example_parts ! 1) \<and>
         (\<exists>!i. i < length example_parts \<and> ''j2'' \<in> part_joints (example_parts ! i)) \<and>
         ((\<forall>c \<in> set [''A'', ''B'']. c \<noteq> [''A'', ''B''] ! 0 \<and> c \<noteq> [''A'', ''B''] ! 1 \<longrightarrow>
              ''j2'' \<notin> joints_of example_registry c) \<longrightarrow>
            ''j2'' \<in> part_joints (example_parts ! 0))"
    by (intro distributeTrajectory_overlap [OF example_distribution])
       (simp_all add: example_registry_def example_controller_def actuated_joints_of_def
          example_trajectory_def)
  have "\<forall>c \<in> set [''A'', ''B'']. c \<noteq> [''A'', ''B''] ! 0 \<and> c \<noteq> [''A'', ''B''] ! 1 \<longrightarrow>
              ''j2'' \<notin> joints_of example_registry c"
    by simp
  with inst example_distribution show ?thesis by blast
qed

end
